theory Spec2Isabelle
  imports Complex_Main "HOL-Library.Char_ord"
begin

section \<open>Data model\<close>

text \<open>
  The script \<open>plot_sssb_xy.py\<close> reads one catalogue line per body and appends its
  fields, in lockstep, to the parallel lists \<open>epoch\<close>, \<open>M\<close>, \<open>omega\<close>, \<open>Omega\<close>, \<open>i\<close>,
  \<open>e\<close>, \<open>a\<close> and \<open>n\<close>. The lists always have the same length, so the population is
  modelled as one list of records, in catalogue order. The angles are the values after
  \<open>np.deg2rad\<close>. Floating-point numbers are modelled as real numbers: rounding and
  overflow are not part of the model.
\<close>

record elements =
  epoch_of :: string
  M_of :: real
  omega_of :: real
  Omega_of :: real
  i_of :: real
  e_of :: real
  a_of :: real
  n_of :: real

section \<open>Family classifier (\<open>plot_sssb_xy.py\<close>, lines 132--158)\<close>

text \<open>
  The six colours of the list \<open>cols\<close>, named by the classes their legend entries
  give them: \<open>red\<close> is NEA, \<open>green\<close> MBA, \<open>orange\<close> Hilda, \<open>blue\<close> Trojan,
  \<open>skyblue\<close> TNO and \<open>gray\<close> Others.
\<close>

datatype label = NEA | MBA | Hilda | Trojan | TNO | Other

definition cols :: "label list" where
  "cols = [NEA, MBA, Hilda, Trojan, TNO, Other]"

definition q :: "elements \<Rightarrow> real" where
  "q b = a_of b * (1 - e_of b)"

definition mask_nea :: "elements list \<Rightarrow> bool list" where
  "mask_nea pop = map (\<lambda>b. q b < 13 / 10) pop"

definition mask_mba :: "elements list \<Rightarrow> bool list" where
  "mask_mba pop = map (\<lambda>b. q b \<ge> 13 / 10 \<and> a_of b \<ge> 18 / 10 \<and> a_of b \<le> 33 / 10) pop"

definition mask_hilda :: "elements list \<Rightarrow> bool list" where
  "mask_hilda pop =
     map (\<lambda>b. q b \<ge> 13 / 10 \<and> a_of b \<ge> 37 / 10 \<and> a_of b \<le> 4 \<and>
               e_of b \<ge> 7 / 100 \<and> e_of b \<le> 3 / 10) pop"

definition mask_trojan :: "elements list \<Rightarrow> bool list" where
  "mask_trojan pop = map (\<lambda>b. q b \<ge> 13 / 10 \<and> a_of b \<ge> 5 \<and> a_of b \<le> 54 / 10) pop"

definition mask_tno :: "elements list \<Rightarrow> bool list" where
  "mask_tno pop = map (\<lambda>b. q b \<ge> 13 / 10 \<and> a_of b \<ge> 30) pop"

text \<open>\<open>colors[mask] = c\<close>: every position where the mask is set is overwritten.\<close>

definition assign_mask :: "label list \<Rightarrow> bool list \<Rightarrow> label \<Rightarrow> label list" where
  "assign_mask cs msk c = map2 (\<lambda>x m. if m then c else x) cs msk"

text \<open>
  \<open>colors\<close> starts as \<open>np.full(a.shape, cols[-1])\<close> and is overwritten by the five
  masks in the order of the source.
\<close>

definition colors :: "elements list \<Rightarrow> label list" where
  "colors pop =
     (let c0 = replicate (length pop) (last cols);
          c1 = assign_mask c0 (mask_nea pop) (cols ! 0);
          c2 = assign_mask c1 (mask_mba pop) (cols ! 1);
          c3 = assign_mask c2 (mask_hilda pop) (cols ! 2);
          c4 = assign_mask c3 (mask_trojan pop) (cols ! 3);
          c5 = assign_mask c4 (mask_tno pop) (cols ! 4)
      in c5)"

text \<open>\<open>np.sum\<close> of a Boolean array counts its true entries.\<close>

definition np_sum :: "bool list \<Rightarrow> int" where
  "np_sum msk = int (length (filter (\<lambda>m. m) msk))"

definition N_all :: "elements list \<Rightarrow> int" where
  "N_all pop = int (length pop)"

definition N_nea :: "elements list \<Rightarrow> int" where
  "N_nea pop = np_sum (mask_nea pop)"

definition N_mba :: "elements list \<Rightarrow> int" where
  "N_mba pop = np_sum (mask_mba pop)"

definition N_hilda :: "elements list \<Rightarrow> int" where
  "N_hilda pop = np_sum (mask_hilda pop)"

definition N_trojan :: "elements list \<Rightarrow> int" where
  "N_trojan pop = np_sum (mask_trojan pop)"

definition N_tno :: "elements list \<Rightarrow> int" where
  "N_tno pop = np_sum (mask_tno pop)"

definition N_others :: "elements list \<Rightarrow> int" where
  "N_others pop = N_all pop - (N_nea pop + N_mba pop + N_hilda pop + N_trojan pop + N_tno pop)"

text \<open>
  The threshold table of the specification, in its own words: the first matching row
  wins, and every bound except the one on \<open>q\<close> is inclusive.
\<close>

definition threshold_table :: "real \<Rightarrow> real \<Rightarrow> label" where
  "threshold_table a e =
     (if a * (1 - e) < 13 / 10 then NEA
      else if 18 / 10 \<le> a \<and> a \<le> 33 / 10 then MBA
      else if 37 / 10 \<le> a \<and> a \<le> 4 \<and> 7 / 100 \<le> e \<and> e \<le> 3 / 10 then Hilda
      else if 5 \<le> a \<and> a \<le> 54 / 10 then Trojan
      else if 30 \<le> a then TNO
      else Other)"

text \<open>A body with the given semi-major axis and eccentricity; the other fields do not
  enter the classification.\<close>

definition body_ae :: "real \<Rightarrow> real \<Rightarrow> elements" where
  "body_ae a e =
     \<lparr>epoch_of = ''K141R'', M_of = 0, omega_of = 0, Omega_of = 0, i_of = 0,
      e_of = e, a_of = a, n_of = 0\<rparr>"

text \<open>A body is in none of the five specific classes, by direct evaluation of the five
  conditions.\<close>

definition in_no_class :: "elements \<Rightarrow> bool" where
  "in_no_class b =
     (\<not> (q b < 13 / 10) \<and>
      \<not> (q b \<ge> 13 / 10 \<and> a_of b \<ge> 18 / 10 \<and> a_of b \<le> 33 / 10) \<and>
      \<not> (q b \<ge> 13 / 10 \<and> a_of b \<ge> 37 / 10 \<and> a_of b \<le> 4 \<and>
           e_of b \<ge> 7 / 100 \<and> e_of b \<le> 3 / 10) \<and>
      \<not> (q b \<ge> 13 / 10 \<and> a_of b \<ge> 5 \<and> a_of b \<le> 54 / 10) \<and>
      \<not> (q b \<ge> 13 / 10 \<and> a_of b \<ge> 30))"

section \<open>Python built-ins used by the epoch decoder\<close>

text \<open>
  Strings are lists of characters, one \<open>char\<close> per code point. The model is exact for
  ASCII text, which the catalogue file is: \<open>upper\<close> and \<open>lower\<close> change the ASCII
  letters only, and the comparisons with \<open>'0'\<close>, \<open>'9'\<close>, \<open>'A'\<close>, \<open>'I'\<close> and \<open>'Z'\<close>
  compare code points. The built-in functions
  \<open>str.strip\<close>, \<open>str.upper\<close>, \<open>float\<close> and \<open>int\<close> and the library types
  \<open>datetime\<close> and \<open>timedelta\<close> are not code of the repository; they are modelled from
  the Python language reference.
\<close>

datatype error = ValueError string | IndexError | OverflowError

datatype pyfloat = Finite real | PosInf | NegInf | NaN

definition ord :: "char \<Rightarrow> int" where
  "ord c = int (of_char c)"

text \<open>\<open>str.isspace\<close> on the code points below 256.\<close>

definition isspace :: "char \<Rightarrow> bool" where
  "isspace c = (ord c \<in> {9, 10, 11, 12, 13, 28, 29, 30, 31, 32, 133, 160})"

definition strip :: "string \<Rightarrow> string" where
  "strip s = rev (dropWhile isspace (rev (dropWhile isspace s)))"

definition upper :: "char \<Rightarrow> char" where
  "upper c = (if CHR ''a'' \<le> c \<and> c \<le> CHR ''z'' then char_of (ord c - 32) else c)"

definition lower :: "char \<Rightarrow> char" where
  "lower c = (if CHR ''A'' \<le> c \<and> c \<le> CHR ''Z'' then char_of (ord c + 32) else c)"

definition isdigit :: "char \<Rightarrow> bool" where
  "isdigit c = (CHR ''0'' \<le> c \<and> c \<le> CHR ''9'')"

text \<open>
  \<open>digitpart ::= digit (["_"] digit)*\<close>: the digits of a digit part, with the
  underscores removed, or \<open>None\<close> when the string is not a digit part.
\<close>

fun digitpart :: "string \<Rightarrow> string option" where
  "digitpart [] = None"
| "digitpart [c] = (if isdigit c then Some [c] else None)"
| "digitpart (c # d # cs) =
     (if isdigit c
      then (if d = CHR ''_'' then map_option ((#) c) (digitpart cs)
            else map_option ((#) c) (digitpart (d # cs)))
      else None)"

definition decimal :: "string \<Rightarrow> int" where
  "decimal ds = foldl (\<lambda>v c. v * 10 + (ord c - ord CHR ''0'')) 0 ds"

text \<open>An optional sign followed by the rest of the string.\<close>

definition signed :: "string \<Rightarrow> bool \<times> string" where
  "signed s =
     (case s of
        [] \<Rightarrow> (False, [])
      | c # cs \<Rightarrow> if c = CHR ''-'' then (True, cs)
                 else if c = CHR ''+'' then (False, cs) else (False, s))"

text \<open>\<open>int(s)\<close> in base 10: \<open>None\<close> stands for the \<open>ValueError\<close> it raises.\<close>

definition py_int :: "string \<Rightarrow> int option" where
  "py_int s =
     (let (neg, t) = signed (strip s)
      in map_option (\<lambda>ds. if neg then - decimal ds else decimal ds) (digitpart t))"

text \<open>
  \<open>number ::= [digitpart] "." digitpart | digitpart ["."]\<close>, as a pair of the digits
  before and after the point.
\<close>

definition number :: "string \<Rightarrow> (string \<times> string) option" where
  "number s =
     (let ip = takeWhile (\<lambda>c. c \<noteq> CHR ''.'') s;
          rest = dropWhile (\<lambda>c. c \<noteq> CHR ''.'') s
      in if rest = [] then map_option (\<lambda>ds. (ds, [])) (digitpart ip)
         else let fp = tl rest
              in if ip = [] \<and> fp = [] then None
                 else case (if ip = [] then Some [] else digitpart ip,
                            if fp = [] then Some [] else digitpart fp) of
                        (Some ds, Some fs) \<Rightarrow> Some (ds, fs)
                      | _ \<Rightarrow> None)"

text \<open>\<open>exponent ::= ("e" | "E") [sign] digitpart\<close>, given the text after the letter.\<close>

definition exponent :: "string \<Rightarrow> int option" where
  "exponent s =
     (let (neg, t) = signed s
      in map_option (\<lambda>ds. if neg then - decimal ds else decimal ds) (digitpart t))"

definition scale10 :: "real \<Rightarrow> int \<Rightarrow> real" where
  "scale10 m k = (if k \<ge> 0 then m * 10 ^ nat k else m / 10 ^ nat (- k))"

definition floatnumber :: "string \<Rightarrow> real option" where
  "floatnumber s =
     (let m = takeWhile (\<lambda>c. c \<noteq> CHR ''e'' \<and> c \<noteq> CHR ''E'') s;
          rest = dropWhile (\<lambda>c. c \<noteq> CHR ''e'' \<and> c \<noteq> CHR ''E'') s
      in case number m of
           None \<Rightarrow> None
         | Some (ds, fs) \<Rightarrow>
             (let mant = real_of_int (decimal ds) + real_of_int (decimal fs) / 10 ^ length fs
              in if rest = [] then Some mant
                 else map_option (scale10 mant) (exponent (tl rest))))"

text \<open>
  \<open>float(s)\<close>: surrounding whitespace is ignored, then an optional sign and one of
  \<open>inf\<close>, \<open>infinity\<close>, \<open>nan\<close> (in any case) or a decimal number. \<open>None\<close> stands for
  the \<open>ValueError\<close> it raises.
\<close>

definition py_float :: "string \<Rightarrow> pyfloat option" where
  "py_float s =
     (let (neg, t) = signed (strip s);
          w = map lower t
      in if w = ''inf'' \<or> w = ''infinity'' then Some (if neg then NegInf else PosInf)
         else if w = ''nan'' then Some NaN
         else map_option (\<lambda>v. Finite (if neg then - v else v)) (floatnumber t))"

subsection \<open>The proleptic Gregorian calendar of \<open>datetime\<close>\<close>

definition is_leap :: "int \<Rightarrow> bool" where
  "is_leap year = (year mod 4 = 0 \<and> (year mod 100 \<noteq> 0 \<or> year mod 400 = 0))"

definition days_before_year :: "int \<Rightarrow> int" where
  "days_before_year year = (let y = year - 1 in y * 365 + y div 4 - y div 100 + y div 400)"

definition days_in_month :: "int \<Rightarrow> int \<Rightarrow> int" where
  "days_in_month year month =
     (if month = 2 then (if is_leap year then 29 else 28)
      else if month \<in> {4, 6, 9, 11} then 30 else 31)"

definition days_before_month :: "int \<Rightarrow> int \<Rightarrow> int" where
  "days_before_month year month = (\<Sum>m \<leftarrow> [1..<nat month]. days_in_month year (int m))"

definition days_in_year :: "int \<Rightarrow> int" where
  "days_in_year year = (if is_leap year then 366 else 365)"

text \<open>The ordinal of a date: 1 for 1 January of year 1.\<close>

definition ymd2ord :: "int \<Rightarrow> int \<Rightarrow> int \<Rightarrow> int" where
  "ymd2ord year month day = days_before_year year + days_before_month year month + day"

text \<open>The largest ordinal, that of 31 December 9999.\<close>

definition MAXORDINAL :: int where
  "MAXORDINAL = 3652059"

text \<open>
  A \<open>datetime\<close> is modelled as a point on the time line: the ordinal of its day plus
  the fraction of that day that has passed. \<open>datetime(year, 1, 1)\<close> raises
  \<open>ValueError\<close> for a year outside 1..9999.
\<close>

definition datetime_jan1 :: "int \<Rightarrow> error + real" where
  "datetime_jan1 year =
     (if 1 \<le> year \<and> year \<le> 9999 then Inr (real_of_int (ymd2ord year 1 1))
      else Inl (ValueError ''year is out of range''))"

text \<open>
  \<open>date + timedelta(days=d)\<close>: \<open>OverflowError\<close> when the result leaves the years
  1..9999 (a \<open>timedelta\<close> beyond its own limit of 999999999 days leaves them too). The
  rounding of the \<open>timedelta\<close> to microseconds is not modelled.
\<close>

definition datetime_add_days :: "real \<Rightarrow> real \<Rightarrow> error + real" where
  "datetime_add_days date d =
     (let t = date + d
      in if 1 \<le> \<lfloor>t\<rfloor> \<and> \<lfloor>t\<rfloor> \<le> MAXORDINAL then Inr t else Inl OverflowError)"

section \<open>Epoch decoder (\<open>common.py\<close>)\<close>

text \<open>
  \<open>utc2jd\<close> hands the ISO text of the date to \<open>astropy\<close>, which returns the Julian
  Date on the UTC scale: the ordinal of the day shifted by 1721424.5, plus the fraction of
  the day. The round trip through the ISO text is not modelled.
\<close>

definition utc2jd :: "real \<Rightarrow> real" where
  "utc2jd date = date + 17214245 / 10"

text \<open>
  \<open>jd2utc\<close> converts back and asks \<open>astropy\<close> for a \<open>datetime\<close>, which exists only for
  the years 1..9999 and for a finite Julian Date.
\<close>

definition jd2utc :: "pyfloat \<Rightarrow> error + real" where
  "jd2utc jd =
     (case jd of
        Finite x \<Rightarrow>
          (let t = x - 17214245 / 10
           in if 1 \<le> \<lfloor>t\<rfloor> \<and> \<lfloor>t\<rfloor> \<le> MAXORDINAL then Inr t
              else Inl (ValueError ''year is out of range''))
      | _ \<Rightarrow> Inl (ValueError ''year is out of range''))"

fun base36_loop :: "int \<Rightarrow> string \<Rightarrow> error + int" where
  "base36_loop val [] = Inr val"
| "base36_loop val (c # cs) =
     (if CHR ''0'' \<le> c \<and> c \<le> CHR ''9''
      then base36_loop (val * 36 + (ord c - ord CHR ''0'')) cs
      else if CHR ''A'' \<le> c \<and> c \<le> CHR ''Z''
      then base36_loop (val * 36 + (ord c - ord CHR ''A'' + 10)) cs
      else Inl (ValueError (''Invalid base36 character: '' @ [c])))"

definition base36_to_int :: "string \<Rightarrow> error + int" where
  "base36_to_int s = base36_loop 0 (map upper s)"

text \<open>
  The split of the code at its point: \<open>integer_part, fractional_part = epoch_code.split('.')\<close>
  raises \<open>ValueError\<close> when there is more than one point.
\<close>

definition split_point :: "string \<Rightarrow> error + string \<times> string" where
  "split_point epoch_code =
     (if CHR ''.'' \<in> set epoch_code
      then (let ip = takeWhile (\<lambda>c. c \<noteq> CHR ''.'') epoch_code;
                fp = tl (dropWhile (\<lambda>c. c \<noteq> CHR ''.'') epoch_code)
            in if CHR ''.'' \<in> set fp
               then Inl (ValueError ''too many values to unpack (expected 2)'')
               else Inr (ip, fp))
      else Inr (epoch_code, ''0''))"

definition century_of :: "char \<Rightarrow> error + int" where
  "century_of c0 =
     (let c = upper c0
      in if \<not> (CHR ''I'' \<le> c \<and> c \<le> CHR ''Z'')
         then Inl (ValueError (''Unknown century code: '' @ [c]))
         else Inr (1800 + 100 * (ord c - ord CHR ''I'')))"

definition packed2jd :: "string \<Rightarrow> string \<Rightarrow> error + pyfloat" where
  "packed2jd integer_part fractional_part =
     (case integer_part of
        [] \<Rightarrow> Inl IndexError
      | c0 # _ \<Rightarrow>
          (case century_of c0 of
             Inl err \<Rightarrow> Inl err
           | Inr century \<Rightarrow>
               (case py_int (take 2 (drop 1 integer_part)) of
                  None \<Rightarrow> Inl (ValueError ''invalid literal for int() with base 10'')
                | Some yy \<Rightarrow>
                    (let year = century + yy
                     in case base36_to_int (take 2 (drop 3 integer_part)) of
                          Inl err \<Rightarrow> Inl err
                        | Inr day_of_year_int \<Rightarrow>
                            (case py_float (''0.'' @ fractional_part) of
                               Some (Finite f) \<Rightarrow>
                                 (let day_of_year = real_of_int day_of_year_int + f
                                  in case datetime_jan1 year of
                                       Inl err \<Rightarrow> Inl err
                                     | Inr jan1 \<Rightarrow>
                                         (case datetime_add_days jan1 (day_of_year - 1) of
                                            Inl err \<Rightarrow> Inl err
                                          | Inr date \<Rightarrow> Inr (Finite (utc2jd date))))
                             | _ \<Rightarrow> Inl (ValueError ''could not convert string to float''))))))"

definition mpcepoch2jd :: "string \<Rightarrow> error + pyfloat" where
  "mpcepoch2jd epoch_code0 =
     (let epoch_code = strip epoch_code0
      in case py_float epoch_code of
           Some jd \<Rightarrow> Inr jd
         | None \<Rightarrow>
             (case split_point epoch_code of
                Inl err \<Rightarrow> Inl err
              | Inr (integer_part, fractional_part) \<Rightarrow> packed2jd integer_part fractional_part))"

section \<open>Kepler solver (\<open>common.py\<close>)\<close>

text \<open>
  An element of a \<open>numpy\<close> float array is a real number, or \<open>None\<close> when it is not
  finite (\<open>inf\<close> or \<open>nan\<close>). Every operation of the pipeline below maps a non-finite
  operand to a non-finite result, and the two operations that leave the real numbers are
  written out: division by zero and the square root of a negative number.
\<close>

type_synonym npfloat = "real option"

definition np_div :: "real \<Rightarrow> real \<Rightarrow> npfloat" where
  "np_div x y = (if y = 0 then None else Some (x / y))"

definition np_sqrt :: "real \<Rightarrow> npfloat" where
  "np_sqrt x = (if x < 0 then None else Some (sqrt x))"

text \<open>The body of the loop, \<open>E - (E - e*np.sin(E) - M) / (1 - e*np.cos(E))\<close>, on one
  element.\<close>

definition newton_update :: "npfloat \<Rightarrow> real \<Rightarrow> npfloat \<Rightarrow> npfloat" where
  "newton_update M_i e_i E_i =
     (case (E_i, M_i) of
        (Some E, Some M) \<Rightarrow>
          map_option (\<lambda>d. E - d) (np_div (E - e_i * sin E - M) (1 - e_i * cos E))
      | _ \<Rightarrow> None)"

text \<open>
  \<open>for _ in range(max_iter)\<close>, on whole arrays. The arrays \<open>M\<close> and \<open>e\<close> have the same
  length, as in the only call of the solver.
\<close>

fun kepler_loop :: "nat \<Rightarrow> npfloat list \<Rightarrow> real list \<Rightarrow> npfloat list \<Rightarrow> npfloat list" where
  "kepler_loop 0 M e E = E"
| "kepler_loop (Suc k) M e E =
     kepler_loop k M e (map (\<lambda>(E_i, e_i, M_i). newton_update M_i e_i E_i) (zip E (zip e M)))"

definition solve_kepler_eq :: "npfloat list \<Rightarrow> real list \<Rightarrow> int \<Rightarrow> npfloat list" where
  "solve_kepler_eq M e max_iter = kepler_loop (nat max_iter) M e M"

text \<open>The default of the parameter \<open>max_iter\<close>.\<close>

definition max_iter_default :: int where
  "max_iter_default = 10"

section \<open>Orbital state propagator (\<open>plot_sssb_xy.py\<close>, lines 93--125)\<close>

text \<open>The list comprehension \<open>[f(x) for x in xs]\<close> of a function that may raise: the
  first exception ends it.\<close>

fun comprehension :: "('a \<Rightarrow> error + 'b) \<Rightarrow> 'a list \<Rightarrow> error + 'b list" where
  "comprehension f [] = Inr []"
| "comprehension f (x # xs) =
     (case f x of
        Inl err \<Rightarrow> Inl err
      | Inr y \<Rightarrow> (case comprehension f xs of Inl err \<Rightarrow> Inl err | Inr ys \<Rightarrow> Inr (y # ys)))"

definition finite_values :: "pyfloat list \<Rightarrow> real list" where
  "finite_values xs = concat (map (\<lambda>x. case x of Finite v \<Rightarrow> [v] | _ \<Rightarrow> []) xs)"

text \<open>\<open>np.min\<close> and \<open>np.max\<close> raise \<open>ValueError\<close> on an array of size zero; a
  \<open>nan\<close> in the array is the result.\<close>

definition np_min :: "pyfloat list \<Rightarrow> error + pyfloat" where
  "np_min xs =
     (if xs = []
      then Inl (ValueError ''zero-size array to reduction operation minimum which has no identity'')
      else if NaN \<in> set xs then Inr NaN
      else if NegInf \<in> set xs then Inr NegInf
      else case finite_values xs of [] \<Rightarrow> Inr PosInf | v # vs \<Rightarrow> Inr (Finite (fold min vs v)))"

definition np_max :: "pyfloat list \<Rightarrow> error + pyfloat" where
  "np_max xs =
     (if xs = []
      then Inl (ValueError ''zero-size array to reduction operation maximum which has no identity'')
      else if NaN \<in> set xs then Inr NaN
      else if PosInf \<in> set xs then Inr PosInf
      else case finite_values xs of [] \<Rightarrow> Inr NegInf | v # vs \<Rightarrow> Inr (Finite (fold max vs v)))"

definition dt_days :: "real \<Rightarrow> pyfloat list \<Rightarrow> npfloat list" where
  "dt_days jd_now epoch_jd =
     map (\<lambda>t. case t of Finite x \<Rightarrow> Some (jd_now - x) | _ \<Rightarrow> None) epoch_jd"

definition M_t :: "elements list \<Rightarrow> npfloat list \<Rightarrow> npfloat list" where
  "M_t pop dt = map2 (\<lambda>b d. map_option (\<lambda>d. M_of b + n_of b * d) d) pop dt"

definition arctan2 :: "real \<Rightarrow> real \<Rightarrow> real" where
  "arctan2 y x =
     (if x > 0 then arctan (y / x)
      else if x < 0 then (if y \<ge> 0 then arctan (y / x) + pi else arctan (y / x) - pi)
      else if y > 0 then pi / 2 else if y < 0 then - pi / 2 else 0)"

definition np_mod :: "real \<Rightarrow> real \<Rightarrow> real" where
  "np_mod x y = x - real_of_int \<lfloor>x / y\<rfloor> * y"

record propagated_state =
  E_st :: npfloat
  nu_st :: npfloat
  r_st :: npfloat
  x_st :: npfloat
  y_st :: npfloat

text \<open>Lines 112--125 on one body, given its eccentric anomaly.\<close>

definition state_of :: "elements \<Rightarrow> npfloat \<Rightarrow> propagated_state" where
  "state_of b E =
     (let nu = (case (E, np_sqrt (1 + e_of b), np_sqrt (1 - e_of b)) of
                  (Some E', Some s1, Some s2) \<Rightarrow>
                    Some (2 * arctan2 (s1 * sin (E' / 2)) (s2 * cos (E' / 2)))
                | _ \<Rightarrow> None);
          nu_total = map_option (\<lambda>v. np_mod (omega_of b + v) (2 * pi)) nu;
          r = map_option (\<lambda>E'. a_of b * (1 - e_of b * cos E')) E;
          cos_Omega = cos (Omega_of b);
          sin_Omega = sin (Omega_of b);
          cos_i = cos (i_of b);
          x = (case (r, nu_total) of
                 (Some r', Some u) \<Rightarrow> Some (r' * (cos_Omega * cos u - sin_Omega * sin u * cos_i))
               | _ \<Rightarrow> None);
          y = (case (r, nu_total) of
                 (Some r', Some u) \<Rightarrow> Some (r' * (sin_Omega * cos u + cos_Omega * sin u * cos_i))
               | _ \<Rightarrow> None)
      in \<lparr>E_st = E, nu_st = nu, r_st = r, x_st = x, y_st = y\<rparr>)"

text \<open>
  Lines 93--125 for the target epoch \<open>jd_now\<close>. The two \<open>print\<close> calls of the epoch
  check write to the console only, but their arguments are evaluated and may raise.
\<close>

definition propagate :: "real \<Rightarrow> elements list \<Rightarrow> error + propagated_state list" where
  "propagate jd_now pop =
     (case comprehension mpcepoch2jd (map epoch_of pop) of
        Inl err \<Rightarrow> Inl err
      | Inr epoch_jd \<Rightarrow>
          (let dt = dt_days jd_now epoch_jd;
               Mt = M_t pop dt
           in case np_min epoch_jd of
                Inl err \<Rightarrow> Inl err
              | Inr ejd_min \<Rightarrow>
                  (case np_max epoch_jd of
                     Inl err \<Rightarrow> Inl err
                   | Inr ejd_max \<Rightarrow>
                       (case jd2utc ejd_min of
                          Inl err \<Rightarrow> Inl err
                        | Inr _ \<Rightarrow>
                            (case jd2utc ejd_max of
                               Inl err \<Rightarrow> Inl err
                             | Inr _ \<Rightarrow>
                                 (let E = solve_kepler_eq Mt (map e_of pop) max_iter_default
                                  in Inr (map2 state_of pop E)))))))"

section \<open>The packed epoch format\<close>

text \<open>
  The notions in which the format of a packed epoch code is stated: a base-36 character
  and its value, the value of a decimal digit, the value of the fraction after the point,
  the year and the day-of-year value of a code, and the Julian Date of a calendar date at
  0h UTC.
\<close>

definition isbase36 :: "char \<Rightarrow> bool" where
  "isbase36 c = (isdigit c \<or> (CHR ''A'' \<le> c \<and> c \<le> CHR ''Z'') \<or> (CHR ''a'' \<le> c \<and> c \<le> CHR ''z''))"

definition base36_value :: "char \<Rightarrow> int" where
  "base36_value c =
     (if isdigit c then ord c - ord CHR ''0''
      else if CHR ''A'' \<le> c \<and> c \<le> CHR ''Z'' then ord c - ord CHR ''A'' + 10
      else ord c - ord CHR ''a'' + 10)"

definition digit_value :: "char \<Rightarrow> int" where
  "digit_value c = ord c - ord CHR ''0''"

definition fraction_value :: "string \<Rightarrow> real" where
  "fraction_value fs = real_of_int (decimal fs) / 10 ^ length fs"

definition packed_year :: "char \<Rightarrow> char \<Rightarrow> char \<Rightarrow> int" where
  "packed_year c y1 y2 =
     1800 + 100 * (ord c - ord CHR ''I'') + (10 * digit_value y1 + digit_value y2)"

definition day_of_year_value :: "string \<Rightarrow> int" where
  "day_of_year_value ds = foldl (\<lambda>v d. v * 36 + base36_value d) 0 ds"

definition jd_of_date :: "int \<Rightarrow> int \<Rightarrow> int \<Rightarrow> real" where
  "jd_of_date year month day = utc2jd (real_of_int (ymd2ord year month day))"

section \<open>Test populations\<close>

text \<open>A catalogue of three bodies: one near-Earth asteroid, one Hilda and one
  trans-Neptunian object, in this order.\<close>

definition three_bodies :: "elements list" where
  "three_bodies = [body_ae 1 0, body_ae (38 / 10) (1 / 10), body_ae 40 (1 / 10)]"

text \<open>A body whose mean anomaly at the target epoch exceeds \<open>2 pi\<close>.\<close>

definition unwrapped_body :: elements where
  "unwrapped_body =
     \<lparr>epoch_of = ''K141R'', M_of = 7, omega_of = 0, Omega_of = 0, i_of = 0,
      e_of = 1 / 10, a_of = 3, n_of = 1 / 100\<rparr>"

section \<open>Properties of the classifier\<close>

lemma assign_mask_map:
  "assign_mask (map f xs) (map g xs) c = map (\<lambda>x. if g x then c else f x) xs"
  by (induction xs) (simp_all add: assign_mask_def)

lemma replicate_as_map: "replicate (length xs) c = map (\<lambda>_. c) xs"
  by (induction xs) simp_all

lemma colors_pointwise:
  "colors pop =
     map (\<lambda>b. if q b \<ge> 13 / 10 \<and> a_of b \<ge> 30 then TNO
          else if q b \<ge> 13 / 10 \<and> a_of b \<ge> 5 \<and> a_of b \<le> 54 / 10 then Trojan
          else if q b \<ge> 13 / 10 \<and> a_of b \<ge> 37 / 10 \<and> a_of b \<le> 4 \<and>
                  e_of b \<ge> 7 / 100 \<and> e_of b \<le> 3 / 10 then Hilda
          else if q b \<ge> 13 / 10 \<and> a_of b \<ge> 18 / 10 \<and> a_of b \<le> 33 / 10 then MBA
          else if q b < 13 / 10 then NEA
          else Other) pop"
  unfolding colors_def Let_def mask_nea_def mask_mba_def mask_hilda_def mask_trojan_def
    mask_tno_def cols_def replicate_as_map assign_mask_map
  by simp

lemma colors_table: "colors pop = map (\<lambda>b. threshold_table (a_of b) (e_of b)) pop"
  unfolding colors_pointwise
  by (rule map_cong) (auto simp: threshold_table_def q_def)

lemma np_sum_map: "np_sum (map P xs) = int (length (filter P xs))"
  by (simp add: np_sum_def filter_map comp_def)

lemma count_list_map: "count_list (map f xs) l = length (filter (\<lambda>x. f x = l) xs)"
  by (induction xs) simp_all

lemma table_NEA: "threshold_table (a_of b) (e_of b) = NEA \<longleftrightarrow> q b < 13 / 10"
  by (simp add: threshold_table_def q_def)

lemma table_MBA:
  "threshold_table (a_of b) (e_of b) = MBA \<longleftrightarrow>
     q b \<ge> 13 / 10 \<and> a_of b \<ge> 18 / 10 \<and> a_of b \<le> 33 / 10"
  by (auto simp: threshold_table_def q_def)

lemma table_Hilda:
  "threshold_table (a_of b) (e_of b) = Hilda \<longleftrightarrow>
     q b \<ge> 13 / 10 \<and> a_of b \<ge> 37 / 10 \<and> a_of b \<le> 4 \<and> e_of b \<ge> 7 / 100 \<and> e_of b \<le> 3 / 10"
  by (auto simp: threshold_table_def q_def)

lemma table_Trojan:
  "threshold_table (a_of b) (e_of b) = Trojan \<longleftrightarrow>
     q b \<ge> 13 / 10 \<and> a_of b \<ge> 5 \<and> a_of b \<le> 54 / 10"
  by (auto simp: threshold_table_def q_def)

lemma table_TNO:
  "threshold_table (a_of b) (e_of b) = TNO \<longleftrightarrow> q b \<ge> 13 / 10 \<and> a_of b \<ge> 30"
  by (auto simp: threshold_table_def q_def)

lemma table_Other: "threshold_table (a_of b) (e_of b) = Other \<longleftrightarrow> in_no_class b"
  by (auto simp: threshold_table_def q_def in_no_class_def)

lemma count_NEA: "int (count_list (colors pop) NEA) = N_nea pop"
  by (simp add: colors_table count_list_map table_NEA N_nea_def mask_nea_def np_sum_map)

lemma count_MBA: "int (count_list (colors pop) MBA) = N_mba pop"
  by (simp add: colors_table count_list_map table_MBA N_mba_def mask_mba_def np_sum_map)

lemma count_Hilda: "int (count_list (colors pop) Hilda) = N_hilda pop"
  by (simp add: colors_table count_list_map table_Hilda N_hilda_def mask_hilda_def np_sum_map)

lemma count_Trojan: "int (count_list (colors pop) Trojan) = N_trojan pop"
  by (simp add: colors_table count_list_map table_Trojan N_trojan_def mask_trojan_def np_sum_map)

lemma count_TNO: "int (count_list (colors pop) TNO) = N_tno pop"
  by (simp add: colors_table count_list_map table_TNO N_tno_def mask_tno_def np_sum_map)

lemma six_counts:
  "length (filter (\<lambda>x. f x = NEA) xs) + length (filter (\<lambda>x. f x = MBA) xs) +
   length (filter (\<lambda>x. f x = Hilda) xs) + length (filter (\<lambda>x. f x = Trojan) xs) +
   length (filter (\<lambda>x. f x = TNO) xs) + length (filter (\<lambda>x. f x = Other) xs) = length xs"
proof (induction xs)
  case Nil
  show ?case by simp
next
  case (Cons x xs)
  then show ?case by (cases "f x") simp_all
qed

lemma count_Other: "int (count_list (colors pop) Other) = N_others pop"
proof -
  have "int (count_list (colors pop) NEA) + int (count_list (colors pop) MBA) +
        int (count_list (colors pop) Hilda) + int (count_list (colors pop) Trojan) +
        int (count_list (colors pop) TNO) + int (count_list (colors pop) Other) = int (length pop)"
    using six_counts [of "\<lambda>b. threshold_table (a_of b) (e_of b)" pop]
    by (simp add: colors_table count_list_map flip: of_nat_add)
  then show ?thesis
    by (simp add: N_others_def N_all_def count_NEA count_MBA count_Hilda count_Trojan count_TNO)
qed

lemma others_direct: "N_others pop = int (length (filter in_no_class pop))"
  by (simp add: count_Other [symmetric] colors_table count_list_map table_Other)

lemma exactly_one_class:
  "i < length pop \<Longrightarrow>
   (of_bool (mask_nea pop ! i) + of_bool (mask_mba pop ! i) + of_bool (mask_hilda pop ! i) +
    of_bool (mask_trojan pop ! i) + of_bool (mask_tno pop ! i) +
    of_bool (in_no_class (pop ! i)) :: nat) = 1"
  by (auto simp: mask_nea_def mask_mba_def mask_hilda_def mask_trojan_def mask_tno_def
      in_no_class_def)


text \<open>
  Claim C2. The classification is a total, mutually exclusive partition: every body gets
  one label, exactly one of the six class conditions holds for it, the count of each label
  is the count the script reports, the six counts add up to the size of the population,
  and the count of Others, computed as the size less the five other counts, is the number
  of bodies that satisfy none of the five class conditions.
\<close>

theorem classification_partition:
  "length (colors pop) = length pop \<and>
   (\<forall>i < length pop.
      (of_bool (mask_nea pop ! i) + of_bool (mask_mba pop ! i) + of_bool (mask_hilda pop ! i) +
       of_bool (mask_trojan pop ! i) + of_bool (mask_tno pop ! i) +
       of_bool (in_no_class (pop ! i)) :: nat) = 1) \<and>
   int (count_list (colors pop) NEA) = N_nea pop \<and>
   int (count_list (colors pop) MBA) = N_mba pop \<and>
   int (count_list (colors pop) Hilda) = N_hilda pop \<and>
   int (count_list (colors pop) Trojan) = N_trojan pop \<and>
   int (count_list (colors pop) TNO) = N_tno pop \<and>
   int (count_list (colors pop) Other) = N_others pop \<and>
   N_nea pop + N_mba pop + N_hilda pop + N_trojan pop + N_tno pop + N_others pop = N_all pop \<and>
   N_others pop = int (length (filter in_no_class pop))"
proof -
  have len: "length (colors pop) = length pop"
    by (simp add: colors_table)
  have total: "N_nea pop + N_mba pop + N_hilda pop + N_trojan pop + N_tno pop + N_others pop
      = N_all pop"
    by (simp add: N_others_def)
  show ?thesis
    using len total exactly_one_class [of _ pop] count_NEA [of pop] count_MBA [of pop]
      count_Hilda [of pop] count_Trojan [of pop] count_TNO [of pop] count_Other [of pop]
      others_direct [of pop]
    by blast
qed

theorem classification_partition_witness:
  "colors three_bodies = [NEA, Hilda, TNO] \<and>
   N_nea three_bodies = 1 \<and> N_hilda three_bodies = 1 \<and> N_tno three_bodies = 1 \<and>
   N_others three_bodies = 0 \<and> N_all three_bodies = 3 \<and>
   (of_bool (mask_nea three_bodies ! 1) + of_bool (mask_mba three_bodies ! 1) +
    of_bool (mask_hilda three_bodies ! 1) + of_bool (mask_trojan three_bodies ! 1) +
    of_bool (mask_tno three_bodies ! 1) + of_bool (in_no_class (three_bodies ! 1)) :: nat) = 1"
proof -
  have c: "colors three_bodies = [NEA, Hilda, TNO]"
    by (simp add: colors_table threshold_table_def three_bodies_def body_ae_def)
  have l: "(1::nat) < length three_bodies"
    by (simp add: three_bodies_def)
  have n: "N_all three_bodies = 3"
    by (simp add: N_all_def three_bodies_def)
  show ?thesis
    using classification_partition [of three_bodies] l by (simp add: c n)
qed


section \<open>Properties of the epoch decoder\<close>

lemma upper_id: "\<not> (CHR ''a'' \<le> c \<and> c \<le> CHR ''z'') \<Longrightarrow> upper c = c"
  by (auto simp: upper_def)

lemma of_char_upper:
  assumes "CHR ''a'' \<le> c" "c \<le> CHR ''z''"
  shows "(of_char (upper c) :: nat) = of_char c - 32"
proof -
  have b: "97 \<le> (of_char c :: nat)" "(of_char c :: nat) \<le> 122"
    using assms by (simp_all add: less_eq_char_def)
  have "ord c - 32 = int (of_char c - 32)"
    using b by (simp add: ord_def)
  then have "upper c = char_of (of_char c - 32 :: nat)"
    using assms by (simp add: upper_def)
  then show ?thesis using b by simp
qed

lemma strip_id:
  assumes "s \<noteq> []" "\<not> isspace (hd s)" "\<not> isspace (last s)"
  shows "strip s = s"
proof -
  have 1: "dropWhile isspace s = s"
    using assms by (cases s) simp_all
  have 2: "dropWhile isspace (rev s) = rev s"
    using assms by (cases "rev s") (simp_all add: hd_rev)
  show ?thesis by (simp add: strip_def 1 2)
qed



lemma digit_facts:
  assumes "isdigit y"
  shows "\<not> isspace y" "y \<noteq> CHR ''-''" "y \<noteq> CHR ''+''" "y \<noteq> CHR ''_''" "y \<noteq> CHR ''.''"
    "y \<noteq> CHR ''e''" "y \<noteq> CHR ''E''" "lower y = y" "upper y = y" "y \<noteq> CHR ''n''"
    "y \<noteq> CHR ''a''"
  using assms by (auto simp: isdigit_def less_eq_char_def isspace_def ord_def lower_def upper_def)

lemma century_facts:
  assumes "CHR ''I'' \<le> c" "c \<le> CHR ''Z''"
  shows "\<not> isspace c" "c \<noteq> CHR ''-''" "c \<noteq> CHR ''+''" "c \<noteq> CHR ''.''"
    "c \<noteq> CHR ''e''" "c \<noteq> CHR ''E''" "upper c = c" "\<not> isdigit c"
  using assms by (auto simp: isdigit_def less_eq_char_def isspace_def ord_def lower_def upper_def)

lemma base36_facts:
  assumes "isbase36 d"
  shows "\<not> isspace d" "d \<noteq> CHR ''.''"
  using assms by (auto simp: isbase36_def isdigit_def less_eq_char_def isspace_def ord_def)

lemma digitpart_nondigit: "\<not> isdigit c \<Longrightarrow> digitpart (c # cs) = None"
  by (cases cs) simp_all

lemma digitpart_digits: "fs \<noteq> [] \<Longrightarrow> list_all isdigit fs \<Longrightarrow> digitpart fs = Some fs"
proof (induction fs rule: digitpart.induct)
  case 1
  then show ?case by simp
next
  case (2 c)
  then show ?case by simp
next
  case (3 c d cs)
  then show ?case by (simp add: digit_facts)
qed

lemma takeWhile_all: "list_all P xs \<Longrightarrow> takeWhile P xs = xs"
  by (induction xs) simp_all

lemma dropWhile_all: "list_all P xs \<Longrightarrow> dropWhile P xs = []"
  by (induction xs) simp_all

lemma number_nondigit: "\<not> isdigit c \<Longrightarrow> c \<noteq> CHR ''.'' \<Longrightarrow> number (c # cs) = None"
  by (simp add: number_def Let_def digitpart_nondigit)

lemma floatnumber_nondigit:
  "\<not> isdigit c \<Longrightarrow> c \<noteq> CHR ''.'' \<Longrightarrow> c \<noteq> CHR ''e'' \<Longrightarrow> c \<noteq> CHR ''E'' \<Longrightarrow>
   floatnumber (c # cs) = None"
  by (simp add: floatnumber_def Let_def number_nondigit)

lemma signed_plain: "c \<noteq> CHR ''-'' \<Longrightarrow> c \<noteq> CHR ''+'' \<Longrightarrow> signed (c # cs) = (False, c # cs)"
  by (simp add: signed_def)

lemma py_float_packed:
  assumes c: "CHR ''I'' \<le> c" "c \<le> CHR ''Z''" and y: "isdigit y"
    and s: "strip (c # y # cs) = c # y # cs"
  shows "py_float (c # y # cs) = None"
  using century_facts [OF c] digit_facts [OF y]
  by (simp add: py_float_def s signed_plain floatnumber_nondigit)

lemma digits_all:
  "list_all isdigit fs \<Longrightarrow> list_all (\<lambda>c. c \<noteq> CHR ''e'' \<and> c \<noteq> CHR ''E'') fs"
  "list_all isdigit fs \<Longrightarrow> list_all (\<lambda>c. c \<noteq> CHR ''.'') fs"
  by (induction fs) (simp_all add: digit_facts)

lemma number_fraction:
  assumes "list_all isdigit fs"
  shows "number (''0.'' @ fs) = Some (''0'', fs)"
  using assms by (cases "fs = []") (simp_all add: number_def Let_def digitpart_digits isdigit_def)

lemma floatnumber_fraction:
  assumes "list_all isdigit fs"
  shows "floatnumber (''0.'' @ fs) = Some (real_of_int (decimal fs) / 10 ^ length fs)"
  using assms
  by (simp add: floatnumber_def Let_def takeWhile_all dropWhile_all digits_all(1)
      number_fraction [simplified] decimal_def)

lemma py_float_fraction:
  assumes "list_all isdigit fs"
  shows "py_float (''0.'' @ fs) = Some (Finite (real_of_int (decimal fs) / 10 ^ length fs))"
proof -
  have "\<not> isspace (last (''0.'' @ fs))"
  proof (cases fs rule: rev_cases)
    case Nil
    then show ?thesis by (simp add: isspace_def ord_def)
  next
    case (snoc ys y)
    then show ?thesis using assms by (simp add: digit_facts(1))
  qed
  then have "strip (''0.'' @ fs) = ''0.'' @ fs"
    by (intro strip_id) (simp_all add: isspace_def ord_def)
  then show ?thesis
    using floatnumber_fraction [OF assms]
    by (simp add: py_float_def signed_def lower_def)
qed

lemma py_int_two_digits:
  assumes "isdigit y1" "isdigit y2"
  shows "py_int [y1, y2] = Some (10 * (ord y1 - ord CHR ''0'') + (ord y2 - ord CHR ''0''))"
proof -
  have "strip [y1, y2] = [y1, y2]"
    using assms by (intro strip_id) (simp_all add: digit_facts(1))
  then show ?thesis
    using assms by (simp add: py_int_def signed_plain digit_facts decimal_def)
qed

lemma upper_base36:
  assumes "isbase36 d"
  shows "(CHR ''0'' \<le> upper d \<and> upper d \<le> CHR ''9'' \<longrightarrow>
            isdigit d \<and> ord (upper d) - ord CHR ''0'' = base36_value d) \<and>
         (\<not> (CHR ''0'' \<le> upper d \<and> upper d \<le> CHR ''9'') \<longrightarrow>
            CHR ''A'' \<le> upper d \<and> upper d \<le> CHR ''Z'' \<and>
            ord (upper d) - ord CHR ''A'' + 10 = base36_value d)"
proof (cases "CHR ''a'' \<le> d \<and> d \<le> CHR ''z''")
  case True
  then have b: "97 \<le> (of_char d :: nat)" "(of_char d :: nat) \<le> 122"
    by (simp_all add: less_eq_char_def)
  have u: "(of_char (upper d) :: nat) = of_char d - 32"
    using True by (simp add: of_char_upper)
  show ?thesis
    using b u True by (auto simp: less_eq_char_def base36_value_def isdigit_def ord_def)
next
  case False
  then have "upper d = d" by (rule upper_id)
  then show ?thesis
    using assms False by (auto simp: isbase36_def base36_value_def isdigit_def less_eq_char_def)
qed

lemma base36_loop_step:
  assumes "isbase36 d"
  shows "base36_loop v (upper d # cs) = base36_loop (v * 36 + base36_value d) cs"
  using upper_base36 [OF assms] by auto

lemma base36_to_int_field:
  assumes "list_all isbase36 ds"
  shows "base36_to_int ds = Inr (foldl (\<lambda>v d. v * 36 + base36_value d) 0 ds)"
proof -
  have "base36_loop v (map upper ds) = Inr (foldl (\<lambda>v d. v * 36 + base36_value d) v ds)" for v
    using assms
    by (induction ds arbitrary: v) (simp_all add: base36_loop_step del: base36_loop.simps(2))
  then show ?thesis by (simp add: base36_to_int_def)
qed


lemma century_of_letter:
  "CHR ''I'' \<le> c \<Longrightarrow> c \<le> CHR ''Z'' \<Longrightarrow>
   century_of c = Inr (1800 + 100 * (ord c - ord CHR ''I''))"
  by (simp add: century_of_def century_facts(7))

lemma div_step:
  fixes y k :: int
  assumes "0 < k"
  shows "y div k = (y - 1) div k + (if y mod k = 0 then 1 else 0)"
proof -
  define q where "q = (y - 1) div k"
  define r where "r = (y - 1) mod k"
  have y: "y = k * q + (r + 1)"
    by (simp add: q_def r_def)
  have r: "0 \<le> r" "r < k"
    using assms by (simp_all add: r_def)
  show ?thesis
  proof (cases "r + 1 = k")
    case True
    then have "y = k * (q + 1)" using y by (simp add: algebra_simps)
    then have "y div k = q + 1" "y mod k = 0" using assms by simp_all
    then show ?thesis by (simp add: q_def)
  next
    case False
    then have "0 \<le> r + 1" "r + 1 < k" using r by simp_all
    with assms y have "y div k = q \<and> y mod k = r + 1" by simp
    then show ?thesis using r by (simp add: q_def)
  qed
qed

lemma mod_100_4: "(y::int) mod 100 = 0 \<Longrightarrow> y mod 4 = 0"
  by auto

lemma mod_400_100: "(y::int) mod 400 = 0 \<Longrightarrow> y mod 100 = 0"
  by auto

lemma days_before_year_Suc: "days_before_year (y + 1) = days_before_year y + days_in_year y"
proof -
  have d: "y div 4 = (y - 1) div 4 + (if y mod 4 = 0 then 1 else 0)"
    "y div 100 = (y - 1) div 100 + (if y mod 100 = 0 then 1 else 0)"
    "y div 400 = (y - 1) div 400 + (if y mod 400 = 0 then 1 else 0)"
    by (rule div_step, simp)+
  have s: "days_before_year (y + 1) = y * 365 + y div 4 - y div 100 + y div 400"
    by (simp add: days_before_year_def)
  have t: "days_before_year y = (y - 1) * 365 + (y - 1) div 4 - (y - 1) div 100 + (y - 1) div 400"
    by (simp add: days_before_year_def Let_def)
  consider "y mod 400 = 0" | "y mod 400 \<noteq> 0" "y mod 100 = 0"
    | "y mod 100 \<noteq> 0" "y mod 4 = 0" | "y mod 4 \<noteq> 0"
    by blast
  then show ?thesis
  proof cases
    case 1
    then have "y mod 100 = 0" "y mod 4 = 0" by (auto dest: mod_400_100 mod_100_4)
    with 1 show ?thesis unfolding s t d by (simp add: days_in_year_def is_leap_def)
  next
    case 2
    then have "y mod 4 = 0" by (auto dest: mod_100_4)
    with 2 show ?thesis unfolding s t d by (simp add: days_in_year_def is_leap_def)
  next
    case 3
    then have "y mod 400 \<noteq> 0" by (auto dest: mod_400_100)
    with 3 show ?thesis unfolding s t d by (simp add: days_in_year_def is_leap_def)
  next
    case 4
    then have "y mod 100 \<noteq> 0" "y mod 400 \<noteq> 0" by (auto dest: mod_400_100 mod_100_4)
    with 4 show ?thesis unfolding s t d by (simp add: days_in_year_def is_leap_def)
  qed
qed

lemma div_bounds: "(0::int) \<le> z \<Longrightarrow> 0 < k \<Longrightarrow> 0 \<le> z div k \<and> z div k \<le> z"
  by (metis div_pos_pos_trivial int_div_le_self leI nle_le pos_imp_zdiv_nonneg_iff)


lemma ymd2ord_jan1: "ymd2ord y 1 1 = days_before_year y + 1"
  by (simp add: ymd2ord_def days_before_month_def)


lemma months_upto_12: "[1..<nat 12] = [1, 2, 3, 4, 5, 6, 7, 8, 9, 10, 11]"
  by code_simp


lemma days_before_month_12: "days_before_month y 12 = (if is_leap y then 335 else 334)"
  unfolding days_before_month_def months_upto_12 by (simp add: days_in_month_def)


lemma ymd2ord_dec31: "ymd2ord y 12 31 = days_before_year y + days_in_year y"
  by (simp add: ymd2ord_def days_before_month_12 days_in_year_def)


lemma jan1_next_year: "ymd2ord (y + 1) 1 1 = ymd2ord y 1 1 + days_in_year y"
  by (simp add: ymd2ord_jan1 days_before_year_Suc)


lemma dec31_previous_year: "ymd2ord (y - 1) 12 31 = ymd2ord y 1 1 - 1"
  using days_before_year_Suc [of "y - 1"] by (simp add: ymd2ord_jan1 ymd2ord_dec31)


lemma ymd2ord_jan1_bounds:
  assumes "2 \<le> y" "y \<le> 3599"
  shows "2 \<le> ymd2ord y 1 1" "ymd2ord y 1 1 \<le> 1320467"
  using assms div_bounds [of "y - 1" 4] div_bounds [of "y - 1" 100] div_bounds [of "y - 1" 400]
  by (simp_all add: ymd2ord_jan1 days_before_year_def Let_def)


lemma digit_value_bounds: "isdigit y \<Longrightarrow> 0 \<le> digit_value y \<and> digit_value y \<le> 9"
  by (auto simp: isdigit_def digit_value_def ord_def less_eq_char_def)


lemma base36_value_bounds: "isbase36 d \<Longrightarrow> 0 \<le> base36_value d \<and> base36_value d \<le> 35"
  by (auto simp: isbase36_def isdigit_def base36_value_def ord_def less_eq_char_def)


lemma century_bounds:
  "CHR ''I'' \<le> c \<Longrightarrow> c \<le> CHR ''Z'' \<Longrightarrow> 0 \<le> ord c - ord CHR ''I'' \<and> ord c - ord CHR ''I'' \<le> 17"
  by (auto simp: ord_def less_eq_char_def)


lemma packed_year_bounds:
  assumes "CHR ''I'' \<le> c" "c \<le> CHR ''Z''" "isdigit y1" "isdigit y2"
  shows "1800 \<le> packed_year c y1 y2" "packed_year c y1 y2 \<le> 3599"
  using century_bounds [OF assms(1,2)] digit_value_bounds [OF assms(3)]
    digit_value_bounds [OF assms(4)]
  by (simp_all add: packed_year_def)


lemma decimal_snoc: "decimal (ys @ [y]) = decimal ys * 10 + digit_value y"
  by (simp add: decimal_def digit_value_def)


lemma decimal_bounds: "list_all isdigit fs \<Longrightarrow> 0 \<le> decimal fs \<and> decimal fs < 10 ^ length fs"
proof (induction fs rule: rev_induct)
  case Nil
  show ?case by (simp add: decimal_def)
next
  case (snoc y ys)
  then have "0 \<le> decimal ys" "decimal ys < 10 ^ length ys"
    "0 \<le> digit_value y" "digit_value y \<le> 9"
    using digit_value_bounds [of y] by simp_all
  then show ?case by (simp add: decimal_snoc)
qed

lemma day_of_year_value_bounds:
  assumes "list_all isbase36 ds"
  shows "0 \<le> day_of_year_value (take 2 ds)" "day_of_year_value (take 2 ds) \<le> 1295"
proof -
  consider "ds = []" | d where "ds = [d]" | d1 d2 r where "ds = d1 # d2 # r"
    by (cases ds rule: digitpart.cases) auto
  then have "0 \<le> day_of_year_value (take 2 ds) \<and> day_of_year_value (take 2 ds) \<le> 1295"
  proof cases
    case 1
    then show ?thesis by (simp add: day_of_year_value_def)
  next
    case 2
    then show ?thesis
      using assms base36_value_bounds [of d] by (simp add: day_of_year_value_def)
  next
    case 3
    then show ?thesis
      using assms base36_value_bounds [of d1] base36_value_bounds [of d2]
      by (simp add: day_of_year_value_def)
  qed
  then show "0 \<le> day_of_year_value (take 2 ds)" "day_of_year_value (take 2 ds) \<le> 1295"
    by simp_all
qed

lemma fraction_value_bounds:
  assumes "list_all isdigit fs"
  shows "0 \<le> fraction_value fs" "fraction_value fs < 1"
proof -
  have d: "0 \<le> decimal fs" "decimal fs < 10 ^ length fs"
    using decimal_bounds [OF assms] by simp_all
  have a: "0 \<le> real_of_int (decimal fs)"
    using d(1) by simp
  have "real_of_int (decimal fs) < real_of_int (10 ^ length fs)"
    using d(2) by (rule of_int_less_iff [THEN iffD2])
  then have b: "real_of_int (decimal fs) < 10 ^ length fs"
    by simp
  show "0 \<le> fraction_value fs"
    using a by (simp add: fraction_value_def)
  show "fraction_value fs < 1"
    using b by (simp add: fraction_value_def)
qed

lemma floor_day:
  fixes f :: real
  assumes "0 \<le> f" "f < 1"
  shows "\<lfloor>real_of_int a + (real_of_int b + f - 1)\<rfloor> = a + b - 1"
proof -
  have "real_of_int a + (real_of_int b + f - 1) = real_of_int (a + b - 1) + f"
    by simp
  then show ?thesis
    using assms by (simp add: floor_unique)
qed

lemma packed2jd_valid:
  assumes c: "CHR ''I'' \<le> c" "c \<le> CHR ''Z''"
    and y: "isdigit y1" "isdigit y2"
    and ds: "list_all isbase36 ds"
    and fs: "list_all isdigit fs"
  shows "packed2jd ([c, y1, y2] @ ds) fs =
           Inr (Finite (jd_of_date (packed_year c y1 y2) 1 1 +
                        (real_of_int (day_of_year_value (take 2 ds)) + fraction_value fs - 1)))"
proof -
  define year where "year = packed_year c y1 y2"
  define doy where "doy = day_of_year_value (take 2 ds)"
  define f where "f = fraction_value fs"
  have cen: "century_of c = Inr (1800 + 100 * (ord c - ord CHR ''I''))"
    using c by (rule century_of_letter)
  have yy: "py_int [y1, y2] = Some (10 * digit_value y1 + digit_value y2)"
    using py_int_two_digits [OF y] by (simp add: digit_value_def)
  have "list_all isbase36 (take 2 ds)"
    using ds by (simp add: list_all_iff) (meson in_set_takeD)
  then have b36: "base36_to_int (take 2 ds) = Inr doy"
    by (simp add: base36_to_int_field doy_def day_of_year_value_def)
  have fr: "py_float (''0.'' @ fs) = Some (Finite f)"
    using py_float_fraction [OF fs] by (simp add: f_def fraction_value_def)
  have yb: "1800 \<le> year" "year \<le> 3599"
    using packed_year_bounds [OF c y] by (simp_all add: year_def)
  then have jan: "datetime_jan1 year = Inr (real_of_int (ymd2ord year 1 1))"
    by (simp add: datetime_jan1_def)
  have ob: "2 \<le> ymd2ord year 1 1" "ymd2ord year 1 1 \<le> 1320467"
    using yb by (simp_all add: ymd2ord_jan1_bounds)
  have db: "0 \<le> doy" "doy \<le> 1295"
    using day_of_year_value_bounds [OF ds] by (simp_all add: doy_def)
  have fb: "0 \<le> f" "f < 1"
    using fraction_value_bounds [OF fs] by (simp_all add: f_def)
  have fl: "\<lfloor>real_of_int (ymd2ord year 1 1) + (real_of_int doy + f - 1)\<rfloor>
      = ymd2ord year 1 1 + doy - 1"
    using fb by (rule floor_day)
  have add: "datetime_add_days (real_of_int (ymd2ord year 1 1)) (real_of_int doy + f - 1)
      = Inr (real_of_int (ymd2ord year 1 1) + (real_of_int doy + f - 1))"
    unfolding datetime_add_days_def Let_def fl MAXORDINAL_def using ob db by simp
  have "packed2jd ([c, y1, y2] @ ds) fs =
          Inr (Finite (utc2jd (real_of_int (ymd2ord year 1 1) + (real_of_int doy + f - 1))))"
    using cen yy b36 fr jan add
    by (simp add: packed2jd_def packed_year_def year_def)
  then show ?thesis
    by (simp add: utc2jd_def jd_of_date_def year_def doy_def f_def)
qed

lemma base36_all:
  "list_all isbase36 ds \<Longrightarrow> list_all (\<lambda>c. c \<noteq> CHR ''.'') ds"
  by (induction ds) (simp_all add: base36_facts)

lemma last_not_space:
  assumes "list_all P xs" "\<And>x. P x \<Longrightarrow> \<not> isspace x" "\<not> isspace z"
  shows "\<not> isspace (last (z # xs))"
  using assms by (induction xs arbitrary: z) simp_all

lemma split_point_plain:
  "list_all (\<lambda>c. c \<noteq> CHR ''.'') s \<Longrightarrow> split_point s = Inr (s, ''0'')"
  by (auto simp: split_point_def list_all_iff)


lemma fraction_value_zero: "fraction_value ''0'' = 0"
  by (simp add: fraction_value_def decimal_def ord_def)

lemma mpcepoch2jd_packed:
  assumes c: "CHR ''I'' \<le> c" "c \<le> CHR ''Z''"
    and y: "isdigit y1" "isdigit y2"
    and ds: "list_all isbase36 ds"
  shows "mpcepoch2jd ([c, y1, y2] @ ds) =
           Inr (Finite (jd_of_date (packed_year c y1 y2) 1 1 +
                        (real_of_int (day_of_year_value (take 2 ds)) - 1)))"
proof -
  let ?code = "[c, y1, y2] @ ds"
  have "\<not> isspace (last (y2 # ds))"
    using ds base36_facts(1) digit_facts(1) [OF y(2)] by (rule last_not_space)
  then have st: "strip ?code = ?code"
    using century_facts(1) [OF c] by (intro strip_id) simp_all
  have fl: "py_float ?code = None"
    using py_float_packed [OF c y(1), of "y2 # ds"] st by simp
  have "list_all (\<lambda>c. c \<noteq> CHR ''.'') ?code"
    using base36_all [OF ds] century_facts(4) [OF c] digit_facts(5) [OF y(1)]
      digit_facts(5) [OF y(2)] by simp
  then have sp: "split_point ?code = Inr (?code, ''0'')"
    by (rule split_point_plain)
  have "list_all isdigit ''0''"
    by (simp add: isdigit_def)
  from packed2jd_valid [OF c y ds this] show ?thesis
    by (simp add: mpcepoch2jd_def st [simplified] fl [simplified] sp [simplified]
        fraction_value_zero)
qed


lemma ord_2014_01_01: "ymd2ord 2014 1 1 = 735234"
  by code_simp

lemma ord_2014_03_04: "ymd2ord 2014 3 4 = 735296"
  by code_simp

lemma ord_2017_07_18: "ymd2ord 2017 7 18 = 736528"
  by code_simp

lemma K141R_fields:
  "CHR ''I'' \<le> CHR ''K''" "CHR ''K'' \<le> CHR ''Z''" "isdigit CHR ''1''" "isdigit CHR ''4''"
  "isbase36 CHR ''1''" "isbase36 CHR ''R''" "isbase36 CHR ''Z''" "isbase36 CHR ''0''"
  "packed_year CHR ''K'' CHR ''1'' CHR ''4'' = 2014"
  "base36_value CHR ''1'' = 1" "base36_value CHR ''R'' = 27" "base36_value CHR ''Z'' = 35"
  "base36_value CHR ''0'' = 0"
  by (simp_all add: isdigit_def isbase36_def packed_year_def digit_value_def base36_value_def
      ord_def)

lemma decode_K141R: "mpcepoch2jd ''K141R'' = Inr (Finite (jd_of_date 2014 3 4))"
  using mpcepoch2jd_packed [of "CHR ''K''" "CHR ''1''" "CHR ''4''" "''1R''"]
  by (simp add: K141R_fields day_of_year_value_def jd_of_date_def utc2jd_def ord_2014_01_01
      ord_2014_03_04)









text \<open>
  Claim C4, as amended. Every century letter \<open>C\<close> in \<open>I\<close>..\<open>Z\<close> is mapped to the century
  \<open>1800 + 100 (C - I)\<close>. The eighteen letters give the centuries 1800 to 3500 in steps of
  100 years: the last letter, \<open>Z\<close>, gives 3500, and no letter gives 3900.
\<close>

theorem century_letter_range:
  "(CHR ''I'' \<le> c \<and> c \<le> CHR ''Z'' \<longrightarrow>
      century_of c = Inr (1800 + 100 * (ord c - ord CHR ''I'')) \<and>
      1800 \<le> 1800 + 100 * (ord c - ord CHR ''I'') \<and>
      1800 + 100 * (ord c - ord CHR ''I'') \<le> 3500) \<and>
   map century_of ''IJKLMNOPQRSTUVWXYZ'' =
     map Inr [1800, 1900, 2000, 2100, 2200, 2300, 2400, 2500, 2600, 2700, 2800, 2900, 3000,
              3100, 3200, 3300, 3400, 3500]"
proof -
  have 1: "century_of c = Inr (1800 + 100 * (ord c - ord CHR ''I'')) \<and>
      1800 \<le> 1800 + 100 * (ord c - ord CHR ''I'') \<and>
      1800 + 100 * (ord c - ord CHR ''I'') \<le> 3500"
    if "CHR ''I'' \<le> c" "c \<le> CHR ''Z''"
    using century_of_letter [OF that] century_bounds [OF that] by simp
  have 2: "map century_of ''IJKLMNOPQRSTUVWXYZ'' =
     map Inr [1800, 1900, 2000, 2100, 2200, 2300, 2400, 2500, 2600, 2700, 2800, 2900, 3000,
              3100, 3200, 3300, 3400, 3500]"
    by (simp add: century_of_def upper_def ord_def)
  show ?thesis using 1 2 by blast
qed

theorem century_letter_range_witness:
  "century_of CHR ''K'' = Inr 2000 \<and> century_of CHR ''I'' = Inr 1800"
  using century_letter_range [of "CHR ''K''"] century_letter_range [of "CHR ''I''"]
  by (simp add: ord_def)

theorem century_3900_counterexample:
  "century_of CHR ''Z'' = Inr 3500 \<and>
   Inr 3900 \<notin> set (map century_of ''IJKLMNOPQRSTUVWXYZ'')"
  by (simp add: century_of_def upper_def ord_def)




lemma jd_of_date_next_year:
  "jd_of_date (y + 1) 1 1 = jd_of_date y 1 1 + real_of_int (days_in_year y)"
  by (simp add: jd_of_date_def utc2jd_def jan1_next_year)

lemma jd_of_date_dec31: "jd_of_date (y - 1) 12 31 = jd_of_date y 1 1 - 1"
  by (simp add: jd_of_date_def utc2jd_def dec31_previous_year)

text \<open>
  Claim C10. The day-of-year field is validated neither in range nor in length. For a
  valid century letter and valid year digits, every field of base-36 characters decodes
  without error to 1 January of the year advanced by the value of its first two characters
  less one; the value is between 0 and 1295. The value 0 gives 31 December of the year
  before, and a value greater than the number of days of the year gives a date in a later
  year.
\<close>

theorem day_of_year_unvalidated:
  "(CHR ''I'' \<le> c \<and> c \<le> CHR ''Z'' \<and> isdigit y1 \<and> isdigit y2 \<and> list_all isbase36 ds \<longrightarrow>
      mpcepoch2jd ([c, y1, y2] @ ds) =
        Inr (Finite (jd_of_date (packed_year c y1 y2) 1 1 +
                     (real_of_int (day_of_year_value (take 2 ds)) - 1))) \<and>
      0 \<le> day_of_year_value (take 2 ds) \<and> day_of_year_value (take 2 ds) \<le> 1295 \<and>
      mpcepoch2jd [c, y1, y2, CHR ''0'', CHR ''0''] =
        Inr (Finite (jd_of_date (packed_year c y1 y2 - 1) 12 31)) \<and>
      (days_in_year (packed_year c y1 y2) < day_of_year_value (take 2 ds) \<longrightarrow>
         jd_of_date (packed_year c y1 y2 + 1) 1 1 \<le>
           jd_of_date (packed_year c y1 y2) 1 1 +
             (real_of_int (day_of_year_value (take 2 ds)) - 1))) \<and>
   mpcepoch2jd ''K1400'' = Inr (Finite (jd_of_date 2013 12 31)) \<and>
   mpcepoch2jd ''K14'' = Inr (Finite (jd_of_date 2013 12 31)) \<and>
   day_of_year_value ''ZZ'' = 1295 \<and>
   mpcepoch2jd ''K14ZZ'' = Inr (Finite (jd_of_date 2017 7 18))"
proof -
  have z: "list_all isbase36 ''00''" "day_of_year_value ''00'' = 0"
    by (simp_all add: K141R_fields day_of_year_value_def)
  have 1: "mpcepoch2jd ([c, y1, y2] @ ds) =
        Inr (Finite (jd_of_date (packed_year c y1 y2) 1 1 +
                     (real_of_int (day_of_year_value (take 2 ds)) - 1)))"
    "0 \<le> day_of_year_value (take 2 ds)" "day_of_year_value (take 2 ds) \<le> 1295"
    "mpcepoch2jd [c, y1, y2, CHR ''0'', CHR ''0''] =
        Inr (Finite (jd_of_date (packed_year c y1 y2 - 1) 12 31))"
    if h: "CHR ''I'' \<le> c" "c \<le> CHR ''Z''" "isdigit y1" "isdigit y2" "list_all isbase36 ds"
  proof -
    show "mpcepoch2jd ([c, y1, y2] @ ds) =
        Inr (Finite (jd_of_date (packed_year c y1 y2) 1 1 +
                     (real_of_int (day_of_year_value (take 2 ds)) - 1)))"
      using h by (rule mpcepoch2jd_packed)
    show "0 \<le> day_of_year_value (take 2 ds)" "day_of_year_value (take 2 ds) \<le> 1295"
      using day_of_year_value_bounds [OF h(5)] by simp_all
    show "mpcepoch2jd [c, y1, y2, CHR ''0'', CHR ''0''] =
        Inr (Finite (jd_of_date (packed_year c y1 y2 - 1) 12 31))"
      using mpcepoch2jd_packed [OF h(1-4) z(1)] by (simp add: z(2) jd_of_date_dec31)
  qed
  have 2: "jd_of_date (y + 1) 1 1 \<le> jd_of_date y 1 1 + (real_of_int d - 1)"
    if "days_in_year y < d" for y d
    using that by (simp add: jd_of_date_next_year)
  have k: "list_all isbase36 ''00''" "list_all isbase36 []" "list_all isbase36 ''ZZ''"
    by (simp_all add: K141R_fields)
  have j: "jd_of_date 2014 1 1 - 1 = jd_of_date 2013 12 31"
    using jd_of_date_dec31 [of 2014] by simp
  have 3: "mpcepoch2jd ''K1400'' = Inr (Finite (jd_of_date 2013 12 31))"
    using mpcepoch2jd_packed [OF K141R_fields(1-4) k(1)]
    by (simp add: K141R_fields day_of_year_value_def j)
  have 4: "mpcepoch2jd ''K14'' = Inr (Finite (jd_of_date 2013 12 31))"
    using mpcepoch2jd_packed [OF K141R_fields(1-4) k(2)]
    by (simp add: K141R_fields day_of_year_value_def j)
  have 5: "day_of_year_value ''ZZ'' = 1295"
    by (simp add: day_of_year_value_def K141R_fields)
  have 6: "mpcepoch2jd ''K14ZZ'' = Inr (Finite (jd_of_date 2017 7 18))"
    using mpcepoch2jd_packed [OF K141R_fields(1-4) k(3)]
    by (simp add: K141R_fields 5 jd_of_date_def utc2jd_def ord_2014_01_01 ord_2017_07_18)
  show ?thesis
    using 1 2 3 4 5 6 by blast
qed

theorem day_of_year_unvalidated_witness:
  "mpcepoch2jd ''K14B0'' = Inr (Finite (jd_of_date 2014 1 1 + 395)) \<and>
   jd_of_date 2015 1 1 \<le> jd_of_date 2014 1 1 + 395 \<and>
   mpcepoch2jd ''K1400'' = Inr (Finite (jd_of_date 2013 12 31))"
proof -
  have h: "CHR ''I'' \<le> CHR ''K'' \<and> CHR ''K'' \<le> CHR ''Z'' \<and> isdigit CHR ''1'' \<and>
      isdigit CHR ''4'' \<and> list_all isbase36 ''B0''"
    by (simp add: K141R_fields isbase36_def isdigit_def)
  have d: "day_of_year_value ''B0'' = 396" "days_in_year 2014 = 365"
    by (simp_all add: day_of_year_value_def base36_value_def isdigit_def ord_def
        days_in_year_def is_leap_def)
  show ?thesis
    using day_of_year_unvalidated [of "CHR ''K''" "CHR ''1''" "CHR ''4''" "''B0''"] h
    by (simp add: K141R_fields d)
qed


section \<open>Properties of the Kepler solver\<close>

lemma kepler_step_length:
  "length e = length M \<Longrightarrow> length E = length M \<Longrightarrow>
   length (map (\<lambda>(E_i, e_i, M_i). newton_update M_i e_i E_i) (zip E (zip e M))) = length M"
  by simp

lemma kepler_step_nth:
  "length e = length M \<Longrightarrow> length E = length M \<Longrightarrow> i < length M \<Longrightarrow>
   map (\<lambda>(E_i, e_i, M_i). newton_update M_i e_i E_i) (zip E (zip e M)) ! i =
     newton_update (M ! i) (e ! i) (E ! i)"
  by simp

lemma kepler_loop_length:
  "length e = length M \<Longrightarrow> length E = length M \<Longrightarrow> length (kepler_loop k M e E) = length M"
proof (induction k arbitrary: E)
  case 0
  then show ?case by simp
next
  case (Suc k)
  show ?case
    unfolding kepler_loop.simps
    by (rule Suc.IH) (simp_all add: Suc.prems)
qed

lemma kepler_loop_nth:
  "length e = length M \<Longrightarrow> length E = length M \<Longrightarrow> i < length M \<Longrightarrow>
   kepler_loop k M e E ! i = (newton_update (M ! i) (e ! i) ^^ k) (E ! i)"
proof (induction k arbitrary: E)
  case 0
  then show ?case by simp
next
  case (Suc k)
  let ?E = "map (\<lambda>(E_i, e_i, M_i). newton_update M_i e_i E_i) (zip E (zip e M))"
  have "kepler_loop (Suc k) M e E ! i = kepler_loop k M e ?E ! i"
    by simp
  also have "\<dots> = (newton_update (M ! i) (e ! i) ^^ k) (?E ! i)"
    using Suc.prems by (intro Suc.IH) simp_all
  also have "?E ! i = newton_update (M ! i) (e ! i) (E ! i)"
    using Suc.prems by (rule kepler_step_nth)
  finally show ?case
    by (simp add: funpow_swap1)
qed

lemma newton_update_finite:
  "1 - e_i * cos E \<noteq> 0 \<Longrightarrow>
   newton_update (Some M) e_i (Some E) = Some (E - (E - e_i * sin E - M) / (1 - e_i * cos E))"
  by (simp add: newton_update_def np_div_def)

lemma newton_update_zero: "0 \<le> e_i \<Longrightarrow> e_i < 1 \<Longrightarrow> newton_update (Some 0) e_i (Some 0) = Some 0"
  by (simp add: newton_update_def np_div_def)

lemma funpow_fixed: "f x = x \<Longrightarrow> (f ^^ k) x = x"
  by (induction k) simp_all

text \<open>
  Claim C8. The solver starts from \<open>E = M\<close> and performs exactly \<open>max_iter\<close> Newton
  updates \<open>E \<leftarrow> E - (E - e sin E - M) / (1 - e cos E)\<close> on every element of the arrays,
  whatever the values are: there is no convergence test and no early exit. The number of
  iterations is 10 by default.
\<close>

theorem solve_fixed_iterations:
  "(length e = length M \<longrightarrow>
      length (solve_kepler_eq M e max_iter) = length M \<and>
      (\<forall>i < length M.
         solve_kepler_eq M e max_iter ! i =
           (newton_update (M ! i) (e ! i) ^^ nat max_iter) (M ! i))) \<and>
   (1 - e_i * cos E_i \<noteq> 0 \<longrightarrow>
      newton_update (Some M_i) e_i (Some E_i) =
        Some (E_i - (E_i - e_i * sin E_i - M_i) / (1 - e_i * cos E_i))) \<and>
   max_iter_default = 10"
  by (simp add: solve_kepler_eq_def kepler_loop_length kepler_loop_nth newton_update_finite
      max_iter_default_def)

theorem solve_fixed_iterations_witness:
  "length (solve_kepler_eq [Some 1, Some 2] [0, 0] 3) = 2 \<and>
   solve_kepler_eq [Some 1, Some 2] [0, 0] 3 ! 1 = (newton_update (Some 2) 0 ^^ 3) (Some 2) \<and>
   newton_update (Some 1) 0 (Some 2) = Some 1"
  using solve_fixed_iterations [of "[0, 0]" "[Some 1, Some 2]" 3 0 2 1]
  by simp

text \<open>
  Claim C9. For an eccentricity \<open>0 \<le> e < 1\<close> the mean anomaly 0 is a fixed point of the
  Newton update, so the solver returns the eccentric anomaly 0 exactly, for every number of
  iterations.
\<close>

theorem solve_zero_mean_anomaly:
  "(0 \<le> e_i \<and> e_i < 1 \<longrightarrow>
      newton_update (Some 0) e_i (Some 0) = Some 0 \<and>
      solve_kepler_eq [Some 0] [e_i] max_iter = [Some 0]) \<and>
   (length e = length M \<and> i < length M \<and> M ! i = Some 0 \<and> 0 \<le> e ! i \<and> e ! i < 1 \<longrightarrow>
      solve_kepler_eq M e max_iter ! i = Some 0)"
proof -
  have 1: "solve_kepler_eq M e max_iter ! i = Some 0"
    if "length e = length M" "i < length M" "M ! i = Some 0" "0 \<le> e ! i" "e ! i < 1"
    for M e i
    using that
    by (simp add: solve_kepler_eq_def kepler_loop_nth funpow_fixed newton_update_zero)
  have 2: "solve_kepler_eq [Some 0] [e_i] max_iter = [Some 0]" if "0 \<le> e_i" "e_i < 1"
  proof -
    have "length (solve_kepler_eq [Some 0] [e_i] max_iter) = 1"
      by (simp add: solve_kepler_eq_def kepler_loop_length)
    moreover have "solve_kepler_eq [Some 0] [e_i] max_iter ! 0 = Some 0"
      using that by (intro 1) simp_all
    ultimately show ?thesis
      by (cases "solve_kepler_eq [Some 0] [e_i] max_iter") simp_all
  qed
  show ?thesis
    using 1 2 newton_update_zero by blast
qed

theorem solve_zero_mean_anomaly_witness:
  "solve_kepler_eq [Some 0] [1 / 2] 10 = [Some 0] \<and>
   solve_kepler_eq [Some 1, Some 0] [0, 9 / 10] 10 ! 1 = Some 0"
  using solve_zero_mean_anomaly [of "1 / 2" 10 "[0, 9 / 10]" "[Some 1, Some 0]" 1]
  by simp

section \<open>Properties of the propagator\<close>

lemma comprehension_length: "comprehension f xs = Inr ys \<Longrightarrow> length ys = length xs"
  by (induction xs arbitrary: ys) (auto split: sum.splits)

lemma comprehension_nth:
  "comprehension f xs = Inr ys \<Longrightarrow> i < length xs \<Longrightarrow> f (xs ! i) = Inr (ys ! i)"
proof (induction xs arbitrary: ys i)
  case Nil
  then show ?case by simp
next
  case (Cons x xs)
  then show ?case by (cases i) (auto split: sum.splits)
qed

lemma comprehension_error:
  "comprehension f (xs @ x # zs) = Inl err"
  if "comprehension f xs = Inr ys" "f x = Inl err"
  using that by (induction xs arbitrary: ys) (auto split: sum.splits)

lemma jd2utc_finite: "\<not> isl (jd2utc t) \<Longrightarrow> \<exists>x. t = Finite x"
  by (cases t) (simp_all add: jd2utc_def)

lemma finite_values_all:
  "\<forall>t \<in> set xs. \<not> isl (jd2utc t) \<Longrightarrow> map Finite (finite_values xs) = xs"
proof (induction xs)
  case Nil
  show ?case by (simp add: finite_values_def)
next
  case (Cons t xs)
  then obtain x where "t = Finite x"
    using jd2utc_finite [of t] by auto
  with Cons show ?case by (simp add: finite_values_def)
qed

lemma fold_min_in: "fold min vs (v::real) \<in> set (v # vs)"
proof (induction vs arbitrary: v)
  case Nil
  show ?case by simp
next
  case (Cons w vs)
  show ?case using Cons [of "min w v"] by (auto simp: min_def split: if_splits)
qed

lemma fold_max_in: "fold max vs (v::real) \<in> set (v # vs)"
proof (induction vs arbitrary: v)
  case Nil
  show ?case by simp
next
  case (Cons w vs)
  show ?case using Cons [of "max w v"] by (auto simp: max_def split: if_splits)
qed

lemma extremes_in_range:
  assumes "xs \<noteq> []" "\<forall>t \<in> set xs. \<not> isl (jd2utc t)"
  shows "\<exists>m. np_min xs = Inr m \<and> \<not> isl (jd2utc m)"
    and "\<exists>m. np_max xs = Inr m \<and> \<not> isl (jd2utc m)"
proof -
  have f: "map Finite (finite_values xs) = xs"
    using assms(2) by (rule finite_values_all)
  then obtain v vs where v: "finite_values xs = v # vs"
    using assms(1) by (cases "finite_values xs") auto
  have n: "NaN \<notin> set xs" "NegInf \<notin> set xs" "PosInf \<notin> set xs"
    using assms(2) by (auto simp: jd2utc_def)
  have s: "Finite w \<in> set xs" if "w \<in> set (v # vs)" for w
    using that f v by (metis imageI list.set_map)
  have "np_min xs = Inr (Finite (fold min vs v))"
    using assms(1) n by (simp add: np_min_def v)
  moreover have "Finite (fold min vs v) \<in> set xs"
    using fold_min_in [of vs v] by (rule s)
  ultimately show "\<exists>m. np_min xs = Inr m \<and> \<not> isl (jd2utc m)"
    using assms(2) by auto
  have "np_max xs = Inr (Finite (fold max vs v))"
    using assms(1) n by (simp add: np_max_def v)
  moreover have "Finite (fold max vs v) \<in> set xs"
    using fold_max_in [of vs v] by (rule s)
  ultimately show "\<exists>m. np_max xs = Inr m \<and> \<not> isl (jd2utc m)"
    using assms(2) by auto
qed

lemma propagate_result:
  assumes "comprehension mpcepoch2jd (map epoch_of pop) = Inr epoch_jd" "pop \<noteq> []"
    "\<forall>t \<in> set epoch_jd. \<not> isl (jd2utc t)"
  shows "propagate jd_now pop =
           Inr (map2 state_of pop
                  (solve_kepler_eq (M_t pop (dt_days jd_now epoch_jd)) (map e_of pop)
                     max_iter_default))"
proof -
  have "length epoch_jd = length pop"
    using comprehension_length [OF assms(1)] by simp
  then have "epoch_jd \<noteq> []"
    using assms(2) by auto
  from extremes_in_range [OF this assms(3)]
  obtain lo hi where "np_min epoch_jd = Inr lo" "\<not> isl (jd2utc lo)"
    "np_max epoch_jd = Inr hi" "\<not> isl (jd2utc hi)"
    by auto
  then show ?thesis
    using assms(1) by (auto simp: propagate_def Let_def split: sum.splits)
qed

lemma propagate_decode_error:
  "comprehension mpcepoch2jd (map epoch_of pop) = Inl err \<Longrightarrow> propagate jd_now pop = Inl err"
  by (simp add: propagate_def)

lemma M_t_nth:
  assumes "length epoch_jd = length pop" "i < length pop" "epoch_jd ! i = Finite x"
  shows "M_t pop (dt_days jd_now epoch_jd) ! i
           = Some (M_of (pop ! i) + n_of (pop ! i) * (jd_now - x))"
  using assms by (simp add: M_t_def dt_days_def)

lemma E_st_states:
  "length E = length pop \<Longrightarrow> map E_st (map2 state_of pop E) = E"
proof (induction pop arbitrary: E)
  case Nil
  then show ?case by simp
next
  case (Cons b pop)
  then show ?case by (cases E) (simp_all add: state_of_def Let_def)
qed

text \<open>
  Claim C7. The propagator computes the mean anomaly at the target epoch as
  \<open>M_t = M + n (jd_now - epoch_jd)\<close> and hands it to the Kepler solver as it is, without
  reducing it modulo \<open>2 pi\<close>; the eccentric anomalies of the result are the values
  the solver returns for it.
\<close>

theorem propagate_unwrapped_mean_anomaly:
  "comprehension mpcepoch2jd (map epoch_of pop) = Inr epoch_jd \<and> pop \<noteq> [] \<and>
   (\<forall>t \<in> set epoch_jd. \<not> isl (jd2utc t)) \<longrightarrow>
     propagate jd_now pop =
       Inr (map2 state_of pop
              (solve_kepler_eq (M_t pop (dt_days jd_now epoch_jd)) (map e_of pop)
                 max_iter_default)) \<and>
     map E_st (map2 state_of pop
                 (solve_kepler_eq (M_t pop (dt_days jd_now epoch_jd)) (map e_of pop)
                    max_iter_default)) =
       solve_kepler_eq (M_t pop (dt_days jd_now epoch_jd)) (map e_of pop) max_iter_default \<and>
     (\<forall>i < length pop. \<forall>x. epoch_jd ! i = Finite x \<longrightarrow>
        M_t pop (dt_days jd_now epoch_jd) ! i =
          Some (M_of (pop ! i) + n_of (pop ! i) * (jd_now - x)))"
proof (intro impI, elim conjE)
  assume a: "comprehension mpcepoch2jd (map epoch_of pop) = Inr epoch_jd" "pop \<noteq> []"
    "\<forall>t \<in> set epoch_jd. \<not> isl (jd2utc t)"
  have l: "length epoch_jd = length pop"
    using comprehension_length [OF a(1)] by simp
  then have m: "length (M_t pop (dt_days jd_now epoch_jd)) = length pop"
    by (simp add: M_t_def dt_days_def)
  have 1: "propagate jd_now pop =
       Inr (map2 state_of pop
              (solve_kepler_eq (M_t pop (dt_days jd_now epoch_jd)) (map e_of pop)
                 max_iter_default))"
    using a by (rule propagate_result)
  have "length (solve_kepler_eq (M_t pop (dt_days jd_now epoch_jd)) (map e_of pop)
      max_iter_default) = length pop"
    using m by (simp add: solve_kepler_eq_def kepler_loop_length)
  then have 2: "map E_st (map2 state_of pop
                 (solve_kepler_eq (M_t pop (dt_days jd_now epoch_jd)) (map e_of pop)
                    max_iter_default)) =
       solve_kepler_eq (M_t pop (dt_days jd_now epoch_jd)) (map e_of pop) max_iter_default"
    by (rule E_st_states)
  have 3: "M_t pop (dt_days jd_now epoch_jd) ! i =
          Some (M_of (pop ! i) + n_of (pop ! i) * (jd_now - x))"
    if "i < length pop" "epoch_jd ! i = Finite x" for i x
    using l that by (rule M_t_nth)
  show "propagate jd_now pop =
       Inr (map2 state_of pop
              (solve_kepler_eq (M_t pop (dt_days jd_now epoch_jd)) (map e_of pop)
                 max_iter_default)) \<and>
     map E_st (map2 state_of pop
                 (solve_kepler_eq (M_t pop (dt_days jd_now epoch_jd)) (map e_of pop)
                    max_iter_default)) =
       solve_kepler_eq (M_t pop (dt_days jd_now epoch_jd)) (map e_of pop) max_iter_default \<and>
     (\<forall>i < length pop. \<forall>x. epoch_jd ! i = Finite x \<longrightarrow>
        M_t pop (dt_days jd_now epoch_jd) ! i =
          Some (M_of (pop ! i) + n_of (pop ! i) * (jd_now - x)))"
    using 1 2 3 by blast
qed

theorem propagate_unwrapped_mean_anomaly_witness:
  "propagate (24567305 / 10) [unwrapped_body] =
     Inr (map2 state_of [unwrapped_body] (solve_kepler_eq [Some (71 / 10)] [1 / 10] 10)) \<and>
   M_t [unwrapped_body] (dt_days (24567305 / 10) [Finite (24567205 / 10)]) ! 0 =
     Some (71 / 10)"
proof -
  have j: "jd_of_date 2014 3 4 = 24567205 / 10"
    by (simp add: jd_of_date_def utc2jd_def ord_2014_03_04)
  have c: "comprehension mpcepoch2jd (map epoch_of [unwrapped_body])
      = Inr [Finite (24567205 / 10)]"
    by (simp add: unwrapped_body_def decode_K141R j)
  have r: "\<forall>t \<in> set [Finite (24567205 / 10)]. \<not> isl (jd2utc t)"
    by (simp add: jd2utc_def MAXORDINAL_def)
  have m: "M_t [unwrapped_body] (dt_days (24567305 / 10) [Finite (24567205 / 10)])
      = [Some (71 / 10)]"
    by (simp add: M_t_def dt_days_def unwrapped_body_def)
  have e: "map e_of [unwrapped_body] = [1 / 10]"
    by (simp add: unwrapped_body_def)
  have h: "comprehension mpcepoch2jd (map epoch_of [unwrapped_body])
      = Inr [Finite (24567205 / 10)] \<and> [unwrapped_body] \<noteq> [] \<and>
      (\<forall>t \<in> set [Finite (24567205 / 10)]. \<not> isl (jd2utc t))"
    using c r by blast
  have p: "propagate (24567305 / 10) [unwrapped_body] =
      Inr (map2 state_of [unwrapped_body]
             (solve_kepler_eq
                (M_t [unwrapped_body] (dt_days (24567305 / 10) [Finite (24567205 / 10)]))
                (map e_of [unwrapped_body]) max_iter_default))"
    using propagate_unwrapped_mean_anomaly [of "[unwrapped_body]" "[Finite (24567205 / 10)]"
        "24567305 / 10"] h
    by blast
  show ?thesis
    unfolding p m e max_iter_default_def by simp
qed

text \<open>
  Claim C6. A failure of the epoch decoder ends the propagation with that failure
  (\<open>propagate_decode_error\<close>), and a non-empty population of epochs in the range of
  \<open>datetime\<close> gives one state per body (\<open>propagate_result\<close>). The propagation of an
  empty population, however, fails in the epoch check, where \<open>np.min\<close> is applied to an
  empty array: an error that does not come from the decoder.
\<close>

theorem propagate_empty_population:
  "propagate jd_now [] =
     Inl (ValueError ''zero-size array to reduction operation minimum which has no identity'')"
  by (simp add: propagate_def np_min_def)

end
